theory Spec2Isabelle
  imports Complex_Main
begin

section \<open>Cell similarity and the reinit protocol (fe\_values.cc)\<close>

text \<open>
  \<^verbatim>\<open>CellSimilarity::Similarity\<close> has four states.  The evaluation context
  \<^verbatim>\<open>FEValuesBase\<close> is modelled by the fields the reinit protocol reads and
  writes: the present cell (a \<^verbatim>\<open>CellIteratorContainer\<close>, which is either
  uninitialised or holds a cell), the stored similarity, and whether
  \<^verbatim>\<open>update_flags & update_mapping\<close> is non-zero.  The mesh queries
  \<^verbatim>\<open>is_translation_of\<close>, \<^verbatim>\<open>direction_flag\<close>,
  \<^verbatim>\<open>get_triangulation\<close>, the process-wide
  \<^verbatim>\<open>MultithreadInfo::n_threads()\<close> and the mapping's
  \<^verbatim>\<open>fill_fe_values\<close> belong to other classes and are parameters.
\<close>

datatype Similarity = none | translation | inverted_translation | invalid_next_cell

record 'cell FEValuesBase =
  present_cell :: "'cell option"
  cell_similarity :: Similarity
  update_mapping :: bool

definition check_cell_similarity ::
  "nat \<Rightarrow> nat \<Rightarrow> nat \<Rightarrow> ('cell \<Rightarrow> 'cell \<Rightarrow> bool) \<Rightarrow> ('cell \<Rightarrow> bool) \<Rightarrow> 'cell
     \<Rightarrow> 'cell FEValuesBase \<Rightarrow> 'cell FEValuesBase" where
  "check_cell_similarity cdim spacedim n_threads is_translation_of direction_flag cell fv =
     (if n_threads > 1 then fv\<lparr>cell_similarity := none\<rparr>
      else
        let fv1 =
          (case present_cell fv of
             None \<Rightarrow> fv\<lparr>cell_similarity := none\<rparr>
           | Some prev \<Rightarrow>
               if cell_similarity fv = invalid_next_cell then fv\<lparr>cell_similarity := none\<rparr>
               else fv\<lparr>cell_similarity :=
                      (if is_translation_of cell prev then translation else none)\<rparr>)
        in if cdim < spacedim \<and> cell_similarity fv1 = translation then
             (case present_cell fv1 of
                None \<Rightarrow> fv1
              | Some prev \<Rightarrow>
                  if direction_flag prev \<noteq> direction_flag cell
                  then fv1\<lparr>cell_similarity := inverted_translation\<rparr> else fv1)
           else fv1)"

definition maybe_invalidate_previous_present_cell ::
  "('cell \<Rightarrow> 'tria) \<Rightarrow> 'cell \<Rightarrow> 'cell FEValuesBase \<Rightarrow> 'cell FEValuesBase" where
  "maybe_invalidate_previous_present_cell get_triangulation cell fv =
     (case present_cell fv of
        Some prev \<Rightarrow>
          if get_triangulation cell \<noteq> get_triangulation prev
          then fv\<lparr>present_cell := None\<rparr> else fv
      | None \<Rightarrow> fv)"

definition do_reinit ::
  "('cell option \<Rightarrow> Similarity \<Rightarrow> Similarity) \<Rightarrow> 'cell FEValuesBase \<Rightarrow> 'cell FEValuesBase" where
  "do_reinit fill_fe_values fv =
     (if update_mapping fv
      then fv\<lparr>cell_similarity := fill_fe_values (present_cell fv) (cell_similarity fv)\<rparr>
      else fv)"

definition reinit ::
  "nat \<Rightarrow> nat \<Rightarrow> nat \<Rightarrow> ('cell \<Rightarrow> 'cell \<Rightarrow> bool) \<Rightarrow> ('cell \<Rightarrow> bool) \<Rightarrow> ('cell \<Rightarrow> 'tria)
     \<Rightarrow> ('cell option \<Rightarrow> Similarity \<Rightarrow> Similarity) \<Rightarrow> 'cell
     \<Rightarrow> 'cell FEValuesBase \<Rightarrow> 'cell FEValuesBase" where
  "reinit cdim spacedim n_threads is_translation_of direction_flag get_triangulation
          fill_fe_values cell fv =
     do_reinit fill_fe_values
       ((check_cell_similarity cdim spacedim n_threads is_translation_of direction_flag cell
           (maybe_invalidate_previous_present_cell get_triangulation cell fv))
        \<lparr>present_cell := Some cell\<rparr>)"

section \<open>The shape-function-to-row table\<close>

text \<open>
  \<^verbatim>\<open>unsigned int\<close> values are natural numbers; \<open>u32\<close> writes out the
  wrap-around of 32-bit unsigned arithmetic, and \<^verbatim>\<open>numbers::invalid_unsigned_int\<close>
  is the largest such value.

  The finite element is an object of another class.  Its queries used in this file are
  the fields of the record \<open>FiniteElement\<close>: \<^verbatim>\<open>n_dofs_per_cell()\<close>,
  \<^verbatim>\<open>n_components()\<close>, \<^verbatim>\<open>is_primitive()\<close>,
  \<^verbatim>\<open>is_primitive(i)\<close>, \<^verbatim>\<open>system_to_component_index(i).first\<close>,
  \<^verbatim>\<open>get_nonzero_components(i)[c]\<close> and \<^verbatim>\<open>n_nonzero_components(i)\<close>.
\<close>

definition invalid_unsigned_int :: nat where
  "invalid_unsigned_int = 4294967295"

definition u32 :: "nat \<Rightarrow> nat" where
  "u32 n = n mod 4294967296"

record FiniteElement =
  n_dofs_per_cell :: nat
  n_components :: nat
  is_primitive :: bool
  is_primitive_shape :: "nat \<Rightarrow> bool"
  system_to_component_index :: "nat \<Rightarrow> nat"
  get_nonzero_components :: "nat \<Rightarrow> nat \<Rightarrow> bool"
  n_nonzero_components :: "nat \<Rightarrow> nat"

text \<open>
  \<^verbatim>\<open>internal::make_shape_function_to_row_table\<close>: \<open>row_table_component\<close> is the
  body of the inner loop over the components \<open>c\<close> (its state is the table and
  \<^verbatim>\<open>nth_nonzero_component\<close>), \<open>row_table_shape_function\<close> the body of the outer
  loop over the shape functions \<open>i\<close> (its state is the table and \<^verbatim>\<open>row\<close>).
\<close>

definition row_table_component ::
  "FiniteElement \<Rightarrow> nat \<Rightarrow> nat \<Rightarrow> nat \<Rightarrow> nat list \<times> nat \<Rightarrow> nat list \<times> nat" where
  "row_table_component fe i row c st =
     (case st of (tab, nth_nonzero_component) \<Rightarrow>
        if get_nonzero_components fe i c
        then (tab[u32 (i * n_components fe + c) := u32 (row + nth_nonzero_component)],
              u32 (nth_nonzero_component + 1))
        else (tab, nth_nonzero_component))"

definition row_table_shape_function ::
  "FiniteElement \<Rightarrow> nat \<Rightarrow> nat list \<times> nat \<Rightarrow> nat list \<times> nat" where
  "row_table_shape_function fe i st =
     (case st of (tab, row) \<Rightarrow>
        (fst (fold (row_table_component fe i row) [0..<n_components fe] (tab, 0)),
         u32 (row + n_nonzero_components fe i)))"

definition make_shape_function_to_row_table :: "FiniteElement \<Rightarrow> nat list" where
  "make_shape_function_to_row_table fe =
     fst (fold (row_table_shape_function fe) [0..<n_dofs_per_cell fe]
            (replicate (u32 (n_dofs_per_cell fe * n_components fe)) invalid_unsigned_int, 0))"

text \<open>
  Auxiliary notions for the statements: \<open>nnz fe i k\<close> counts the non-zero components
  of shape function \<open>i\<close> among the first \<open>k\<close> components, \<open>first_row fe i\<close> is the
  number of rows declared by the shape functions before \<open>i\<close>.  A descriptor has
  \<open>consistent_counts\<close> when \<^verbatim>\<open>n_nonzero_components(i)\<close> is the number of bits set
  in \<^verbatim>\<open>get_nonzero_components(i)\<close>, as the finite element class guarantees, and
  when the table size stays below \<open>2^31\<close>, so that no row number wraps around or
  changes value when it is stored in an \<^verbatim>\<open>int\<close>.
\<close>

definition nnz :: "FiniteElement \<Rightarrow> nat \<Rightarrow> nat \<Rightarrow> nat" where
  "nnz fe i k = length (filter (get_nonzero_components fe i) [0..<k])"

definition consistent_counts :: "FiniteElement \<Rightarrow> bool" where
  "consistent_counts fe \<longleftrightarrow>
     n_dofs_per_cell fe * n_components fe < 2147483648 \<and>
     (\<forall>i < n_dofs_per_cell fe. n_nonzero_components fe i = nnz fe i (n_components fe))"

definition first_row :: "FiniteElement \<Rightarrow> nat \<Rightarrow> nat" where
  "first_row fe i = (\<Sum>j<i. n_nonzero_components fe j)"

section \<open>View descriptors\<close>

text \<open>
  A failed \<^verbatim>\<open>Assert\<close> is an error value; \<^verbatim>\<open>AssertIndexRange\<close> raises
  \<open>ExcIndexRange\<close>.  \<open>int_of_unsigned\<close> is the conversion of an
  \<^verbatim>\<open>unsigned int\<close> to \<^verbatim>\<open>int\<close> that happens when a row index is stored in
  \<^verbatim>\<open>single_nonzero_component\<close>.

  \<^verbatim>\<open>ShapeFunctionData\<close> of the vector, symmetric tensor and tensor views has the
  same members in all three classes; its two fixed-size member arrays are functions
  of the index, and an entry the constructor never writes keeps the value of the
  value-initialised element.  The three view classes have the same members, too, and
  share the record \<open>View\<close>.
\<close>

datatype error = ExcIndexRange | ExcNotImplemented | ExcInternalError | ExcMessage

definition int_of_unsigned :: "nat \<Rightarrow> int" where
  "int_of_unsigned r = (if r < 2147483648 then int r else int r - 4294967296)"

record ScalarShapeFunctionData =
  scalar_is_nonzero_shape_function_component :: bool
  scalar_row_index :: nat

record ShapeFunctionData =
  is_nonzero_shape_function_component :: "nat \<Rightarrow> bool"
  row_index :: "nat \<Rightarrow> nat"
  single_nonzero_component :: int
  single_nonzero_component_index :: nat

record ScalarView =
  component :: nat
  scalar_shape_function_data :: "ScalarShapeFunctionData list"

record View =
  first_component :: nat
  shape_function_data :: "ShapeFunctionData list"

text \<open>
  \<open>for_each_entry n f xs\<close> is the loop
  \<^verbatim>\<open>for (i = 0; i < n; ++i) xs[i] = f(i, xs[i])\<close>.
  \<open>nonzero_component_entry\<close> is the computation, repeated in the four constructors, of
  the non-zero flag and the row index of shape function \<open>i\<close> for one component.
\<close>

definition for_each_entry :: "nat \<Rightarrow> (nat \<Rightarrow> 'a \<Rightarrow> 'a) \<Rightarrow> 'a list \<Rightarrow> 'a list" where
  "for_each_entry n f xs = fold (\<lambda>i ys. ys[i := f i (ys ! i)]) [0..<n] xs"

definition nonzero_component_entry ::
  "FiniteElement \<Rightarrow> nat list \<Rightarrow> nat \<Rightarrow> nat \<Rightarrow> bool \<times> nat" where
  "nonzero_component_entry fe tab cno i =
     (let is_prim = (is_primitive fe \<or> is_primitive_shape fe i);
          nz = (if is_prim then cno = system_to_component_index fe i
                else get_nonzero_components fe i cno)
      in (nz, if nz then tab ! u32 (i * n_components fe + cno) else invalid_unsigned_int))"

definition Scalar_ctor :: "FiniteElement \<Rightarrow> nat \<Rightarrow> error + ScalarView" where
  "Scalar_ctor fe cno =
     (if \<not> cno < n_components fe then Inl ExcIndexRange
      else
        let tab = make_shape_function_to_row_table fe
        in Inr \<lparr>component = cno,
                scalar_shape_function_data =
                  for_each_entry (n_dofs_per_cell fe)
                    (\<lambda>i sfd. case nonzero_component_entry fe tab cno i of
                       (nz, row) \<Rightarrow>
                         sfd\<lparr>scalar_is_nonzero_shape_function_component := nz,
                             scalar_row_index := row\<rparr>)
                    (replicate (n_dofs_per_cell fe)
                       \<lparr>scalar_is_nonzero_shape_function_component = False,
                        scalar_row_index = 0\<rparr>)\<rparr>)"

text \<open>
  The bodies of the constructors of \<^verbatim>\<open>Vector\<close>, \<^verbatim>\<open>SymmetricTensor\<close> and
  \<^verbatim>\<open>Tensor\<close> differ only in the number \<open>K\<close> of sub-components:
  \<open>set_component_flags\<close> is the body of the first loop nest, \<open>classify_shape_function\<close>
  the body of the second loop (the counting loop, then the search loop that ends at the
  first flag set), \<open>make_shape_function_data\<close> the two loops.
\<close>

definition set_component_flags ::
  "FiniteElement \<Rightarrow> nat list \<Rightarrow> nat \<Rightarrow> nat \<Rightarrow> nat \<Rightarrow> ShapeFunctionData \<Rightarrow> ShapeFunctionData" where
  "set_component_flags fe tab first d i sfd =
     (case nonzero_component_entry fe tab (u32 (first + d)) i of
        (nz, row) \<Rightarrow>
          sfd\<lparr>is_nonzero_shape_function_component :=
                (is_nonzero_shape_function_component sfd)(d := nz),
              row_index := (row_index sfd)(d := row)\<rparr>)"

definition classify_shape_function :: "nat \<Rightarrow> ShapeFunctionData \<Rightarrow> ShapeFunctionData" where
  "classify_shape_function K sfd =
     (let n_nonzero_components =
            fold (\<lambda>d n. if is_nonzero_shape_function_component sfd d then n + 1 else n)
              [0..<K] (0::nat)
      in if n_nonzero_components = 0 then sfd\<lparr>single_nonzero_component := - 2\<rparr>
         else if n_nonzero_components > 1 then sfd\<lparr>single_nonzero_component := - 1\<rparr>
         else (case find (is_nonzero_shape_function_component sfd) [0..<K] of
                 None \<Rightarrow> sfd
               | Some d \<Rightarrow>
                   sfd\<lparr>single_nonzero_component := int_of_unsigned (row_index sfd d),
                       single_nonzero_component_index := d\<rparr>))"

definition make_shape_function_data :: "FiniteElement \<Rightarrow> nat \<Rightarrow> nat \<Rightarrow> ShapeFunctionData list" where
  "make_shape_function_data fe first K =
     (let tab = make_shape_function_to_row_table fe;
          init = replicate (n_dofs_per_cell fe)
                   \<lparr>is_nonzero_shape_function_component = (\<lambda>d. False),
                    row_index = (\<lambda>d. 0),
                    single_nonzero_component = 0,
                    single_nonzero_component_index = 0\<rparr>;
          filled = fold (\<lambda>d. for_each_entry (n_dofs_per_cell fe)
                                (set_component_flags fe tab first d)) [0..<K] init
      in for_each_entry (n_dofs_per_cell fe) (\<lambda>i. classify_shape_function K) filled)"

definition symmetric_n_independent_components :: "nat \<Rightarrow> nat" where
  "symmetric_n_independent_components d = (d * d + d) div 2"

definition Vector_ctor :: "nat \<Rightarrow> FiniteElement \<Rightarrow> nat \<Rightarrow> error + View" where
  "Vector_ctor spacedim fe first_vector_component =
     (if \<not> u32 (first_vector_component + spacedim + 4294967295) < n_components fe
      then Inl ExcIndexRange
      else Inr \<lparr>first_component = first_vector_component,
                shape_function_data =
                  make_shape_function_data fe first_vector_component spacedim\<rparr>)"

definition SymmetricTensor_ctor :: "nat \<Rightarrow> FiniteElement \<Rightarrow> nat \<Rightarrow> error + View" where
  "SymmetricTensor_ctor cdim fe first_tensor_component =
     (if \<not> u32 (first_tensor_component + (cdim * cdim + cdim) div 2 + 4294967295)
            < n_components fe
      then Inl ExcIndexRange
      else Inr \<lparr>first_component = first_tensor_component,
                shape_function_data =
                  make_shape_function_data fe first_tensor_component
                    (symmetric_n_independent_components cdim)\<rparr>)"

definition Tensor_ctor :: "nat \<Rightarrow> FiniteElement \<Rightarrow> nat \<Rightarrow> error + View" where
  "Tensor_ctor cdim fe first_tensor_component =
     (if \<not> u32 (first_tensor_component + cdim * cdim + 4294967295) < n_components fe
      then Inl ExcIndexRange
      else Inr \<lparr>first_component = first_tensor_component,
                shape_function_data =
                  make_shape_function_data fe first_tensor_component (cdim * cdim)\<rparr>)"

text \<open>
  A descriptor is consistent when, in addition to \<open>consistent_counts\<close>, a primitive
  shape function is non-zero in the component \<^verbatim>\<open>system_to_component_index\<close> names.
  \<open>classifier_consistent K sfd\<close> is the relation between the classifier and the \<open>K\<close>
  flags of one shape function.
\<close>

definition consistent_fe :: "FiniteElement \<Rightarrow> bool" where
  "consistent_fe fe \<longleftrightarrow>
     consistent_counts fe \<and>
     (\<forall>i < n_dofs_per_cell fe.
        is_primitive fe \<or> is_primitive_shape fe i \<longrightarrow>
        get_nonzero_components fe i (system_to_component_index fe i))"

definition classifier_consistent :: "nat \<Rightarrow> ShapeFunctionData \<Rightarrow> bool" where
  "classifier_consistent K sfd \<longleftrightarrow>
     (single_nonzero_component sfd = - 2 \<longleftrightarrow>
        (\<forall>d < K. \<not> is_nonzero_shape_function_component sfd d)) \<and>
     (single_nonzero_component sfd = - 1 \<longleftrightarrow>
        1 < length (filter (is_nonzero_shape_function_component sfd) [0..<K])) \<and>
     (\<forall>d < K. is_nonzero_shape_function_component sfd d \<and>
        (\<forall>d' < K. is_nonzero_shape_function_component sfd d' \<longrightarrow> d' = d) \<longrightarrow>
        single_nonzero_component sfd = int (row_index sfd d) \<and>
        single_nonzero_component_index sfd = d)"

section \<open>The view cache\<close>

text \<open>
  Modelled from the spec: \<^verbatim>\<open>Tensor<rank,spacedim>::n_independent_components\<close> is
  declared in a header that is not part of the source file; a vector has
  \<open>spacedim\<close> and a rank-2 tensor \<open>spacedim\<^sup>2\<close> independent components.  The count for
  the symmetric tensor, \<open>symmetric_n_independent_components\<close>, is the expression the
  constructor of the symmetric tensor view asserts on.

  \<open>emplace_views\<close> is a loop of \<^verbatim>\<open>emplace_back\<close> calls, which ends at the first
  constructor that fails; \<open>n_views\<close> is the guarded expression the cache constructor
  evaluates three times.
\<close>

definition tensor_n_independent_components :: "nat \<Rightarrow> nat \<Rightarrow> nat" where
  "tensor_n_independent_components rank spacedim = spacedim ^ rank"

record Cache =
  scalars :: "ScalarView list"
  vectors :: "View list"
  symmetric_second_order_tensors :: "View list"
  second_order_tensors :: "View list"

fun emplace_views :: "(nat \<Rightarrow> error + 'a) \<Rightarrow> nat list \<Rightarrow> error + 'a list" where
  "emplace_views ctor [] = Inr []"
| "emplace_views ctor (c # cs) =
     (case ctor c of
        Inl e \<Rightarrow> Inl e
      | Inr v \<Rightarrow> (case emplace_views ctor cs of Inl e \<Rightarrow> Inl e | Inr vs \<Rightarrow> Inr (v # vs)))"

definition n_views :: "nat \<Rightarrow> nat \<Rightarrow> nat" where
  "n_views n k = (if n \<ge> k then u32 (n - k + 1) else 0)"

definition Cache_ctor :: "nat \<Rightarrow> nat \<Rightarrow> FiniteElement \<Rightarrow> error + Cache" where
  "Cache_ctor cdim spacedim fe =
     (let n_scalars = n_components fe;
          n_vectors = n_views (n_components fe) (tensor_n_independent_components 1 spacedim);
          n_symmetric_second_order_tensors =
            n_views (n_components fe) (symmetric_n_independent_components spacedim);
          n_second_order_tensors =
            n_views (n_components fe) (tensor_n_independent_components 2 spacedim)
      in case emplace_views (Scalar_ctor fe) [0..<n_scalars] of
           Inl e \<Rightarrow> Inl e
         | Inr ss \<Rightarrow>
        (case emplace_views (Vector_ctor spacedim fe) [0..<n_vectors] of
           Inl e \<Rightarrow> Inl e
         | Inr vs \<Rightarrow>
        (case emplace_views (SymmetricTensor_ctor cdim fe)
                [0..<n_symmetric_second_order_tensors] of
           Inl e \<Rightarrow> Inl e
         | Inr sts \<Rightarrow>
        (case emplace_views (Tensor_ctor cdim fe) [0..<n_second_order_tensors] of
           Inl e \<Rightarrow> Inl e
         | Inr ts \<Rightarrow>
             Inr \<lparr>scalars = ss, vectors = vs, symmetric_second_order_tensors = sts,
                  second_order_tensors = ts\<rparr>))))"

section \<open>Accumulation kernels\<close>

text \<open>
  The number type of the coefficients and \<^verbatim>\<open>double\<close> are the real numbers: the
  kernels are studied in exact arithmetic, and the statements below fix which rows,
  indices and signs enter an output and when a kernel fails, not how a sum is
  rounded.  A \<^verbatim>\<open>Tensor<rank,spacedim>\<close> is a function from the list of its
  \<open>rank\<close> indices to its entry, and an update of one entry is a function update at
  the index list.  A \<^verbatim>\<open>Table<2,T>\<close> is a function of the row and the quadrature
  point.  The maps \<^verbatim>\<open>unrolled_to_component_indices\<close> of the two tensor classes
  are declared in headers that are not part of the source file: they are parameters
  of the kernels that call them.
\<close>

type_synonym tensor = "nat list \<Rightarrow> real"

definition tensor_zero :: tensor where
  "tensor_zero = (\<lambda>idx. 0)"

definition CheckForZero :: "real \<Rightarrow> bool" where
  "CheckForZero v \<longleftrightarrow> v = 0"

text \<open>
  The divergence kernels of the two tensor views repeat one loop over the shape
  functions, \<open>accumulate_single\<close>, whose body is \<open>accumulate_single_shape_function\<close>:
  a shape function is skipped when its classifier is \<open>-2\<close> or its coefficient is
  zero; when the classifier is not \<open>-1\<close> every quadrature point is updated for the
  sub-component \<^verbatim>\<open>single_nonzero_component_index\<close> and the row \<^verbatim>\<open>snc\<close>;
  otherwise the loop over the sub-components \<open>d < K\<close> fails at the first one whose
  flag is set.
\<close>

fun try_fold :: "('a \<Rightarrow> 's \<Rightarrow> error + 's) \<Rightarrow> 'a list \<Rightarrow> 's \<Rightarrow> error + 's" where
  "try_fold f [] s = Inr s"
| "try_fold f (x # xs) s = (case f x s of Inl e \<Rightarrow> Inl e | Inr s' \<Rightarrow> try_fold f xs s')"



subsection \<open>The curl kernel of the vector view\<close>

text \<open>
  \<open>curl_2d_shape_function\<close> and \<open>curl_3d_shape_function\<close> are the
  bodies of the loops over the shape functions in \<^verbatim>\<open>case 2\<close> and \<^verbatim>\<open>case 3\<close>
  of the \<^verbatim>\<open>switch\<close> on \<open>spacedim\<close>; \<open>curl_3d_update\<close> is the update of one
  quadrature point for sub-component \<open>d\<close>, written out three times in each of the two
  branches.  The \<^verbatim>\<open>switch\<close> has no default branch.
\<close>

definition curl_2d_shape_function ::
  "real list \<Rightarrow> (nat \<Rightarrow> nat \<Rightarrow> tensor) \<Rightarrow> ShapeFunctionData list \<Rightarrow> nat \<Rightarrow> tensor list
     \<Rightarrow> error + tensor list" where
  "curl_2d_shape_function dof_values shape_gradients sfd shape_function curls =
     (let snc = single_nonzero_component (sfd ! shape_function)
      in if snc = - 2 then Inr curls
         else
           let value = dof_values ! shape_function
           in if CheckForZero value then Inr curls
              else if snc \<noteq> - 1
              then (if \<not> single_nonzero_component (sfd ! shape_function) \<ge> 0
                    then Inl ExcInternalError
                    else if single_nonzero_component_index (sfd ! shape_function) = 0
                    then Inr (for_each_entry (length curls)
                                (\<lambda>q_point T.
                                   T([0] := T [0] - value * shape_gradients (nat snc) q_point [1]))
                                curls)
                    else Inr (for_each_entry (length curls)
                                (\<lambda>q_point T.
                                   T([0] := T [0] + value * shape_gradients (nat snc) q_point [0]))
                                curls))
              else
                (let curls1 =
                       (if is_nonzero_shape_function_component (sfd ! shape_function) 0
                        then for_each_entry (length curls)
                               (\<lambda>q_point T.
                                  T([0] := T [0] - value *
                                     shape_gradients (row_index (sfd ! shape_function) 0)
                                       q_point [1]))
                               curls
                        else curls);
                     curls2 =
                       (if is_nonzero_shape_function_component (sfd ! shape_function) 1
                        then for_each_entry (length curls1)
                               (\<lambda>q_point T.
                                  T([0] := T [0] + value *
                                     shape_gradients (row_index (sfd ! shape_function) 1)
                                       q_point [0]))
                               curls1
                        else curls1)
                 in Inr curls2))"

definition curl_3d_update :: "nat \<Rightarrow> real \<Rightarrow> tensor \<Rightarrow> tensor \<Rightarrow> tensor" where
  "curl_3d_update d value g T =
     (if d = 0
      then (let T1 = T([1] := T [1] + value * g [2]) in T1([2] := T1 [2] - value * g [1]))
      else if d = 1
      then (let T1 = T([0] := T [0] - value * g [2]) in T1([2] := T1 [2] + value * g [0]))
      else (let T1 = T([0] := T [0] + value * g [1]) in T1([1] := T1 [1] - value * g [0])))"

definition curl_3d_shape_function ::
  "real list \<Rightarrow> (nat \<Rightarrow> nat \<Rightarrow> tensor) \<Rightarrow> ShapeFunctionData list \<Rightarrow> nat \<Rightarrow> tensor list
     \<Rightarrow> error + tensor list" where
  "curl_3d_shape_function dof_values shape_gradients sfd shape_function curls =
     (let snc = single_nonzero_component (sfd ! shape_function)
      in if snc = - 2 then Inr curls
         else
           let value = dof_values ! shape_function
           in if CheckForZero value then Inr curls
              else if snc \<noteq> - 1
              then (if single_nonzero_component_index (sfd ! shape_function) \<in> {0, 1, 2}
                    then Inr (for_each_entry (length curls)
                                (\<lambda>q_point.
                                   curl_3d_update
                                     (single_nonzero_component_index (sfd ! shape_function))
                                     value (shape_gradients (nat snc) q_point))
                                curls)
                    else Inl ExcInternalError)
              else
                Inr (fold (\<lambda>d curls.
                             if is_nonzero_shape_function_component (sfd ! shape_function) d
                             then for_each_entry (length curls)
                                    (\<lambda>q_point.
                                       curl_3d_update d value
                                         (shape_gradients (row_index (sfd ! shape_function) d)
                                            q_point))
                                    curls
                             else curls)
                       [0, 1, 2] curls))"

definition do_function_curls ::
  "nat \<Rightarrow> real list \<Rightarrow> (nat \<Rightarrow> nat \<Rightarrow> tensor) \<Rightarrow> ShapeFunctionData list \<Rightarrow> tensor list
     \<Rightarrow> error + tensor list" where
  "do_function_curls spacedim dof_values shape_gradients sfd curls =
     (let out = replicate (length curls) tensor_zero
      in if spacedim = 1 then Inl ExcMessage
         else if spacedim = 2
         then try_fold (curl_2d_shape_function dof_values shape_gradients sfd)
                [0..<length dof_values] out
         else if spacedim = 3
         then try_fold (curl_3d_shape_function dof_values shape_gradients sfd)
                [0..<length dof_values] out
         else Inr out)"

subsection \<open>Divergence kernels of the symmetric tensor view and of the tensor view\<close>








section \<open>Properties of the cell-similarity classification\<close>

text \<open>
  Claim C7.  The classification step yields \<open>none\<close> whenever more than one worker
  thread exists, or no cell was bound before, or the stored classification was
  \<open>invalid_next_cell\<close>.  Otherwise it yields \<open>none\<close> when the new cell is not a
  translate of the previous one, and when it is a translate it yields
  \<open>inverted_translation\<close> exactly if \<open>cdim < spacedim\<close> and the direction flags of the
  two cells differ, and \<open>translation\<close> if not.
\<close>

theorem check_cell_similarity_classification:
  "(n_threads > 1 \<or> present_cell fv = None \<or> cell_similarity fv = invalid_next_cell \<longrightarrow>
      cell_similarity
        (check_cell_similarity cdim spacedim n_threads is_translation_of direction_flag cell fv)
        = none) \<and>
   (\<forall>prev. \<not> n_threads > 1 \<and> present_cell fv = Some prev \<and>
        cell_similarity fv \<noteq> invalid_next_cell \<longrightarrow>
      cell_similarity
        (check_cell_similarity cdim spacedim n_threads is_translation_of direction_flag cell fv)
        = (if \<not> is_translation_of cell prev then none
           else if cdim < spacedim \<and> direction_flag prev \<noteq> direction_flag cell
                then inverted_translation
           else translation))"
  by (auto simp: check_cell_similarity_def Let_def split: option.splits)

theorem check_cell_similarity_classification_witness:
  "cell_similarity
     (check_cell_similarity 2 3 1 (\<lambda>a b. a = Suc b) (\<lambda>c. c = 0) (Suc 0)
        \<lparr>present_cell = Some (0::nat), cell_similarity = translation, update_mapping = True\<rparr>)
     = inverted_translation \<and>
   cell_similarity
     (check_cell_similarity 2 3 4 (\<lambda>a b. a = Suc b) (\<lambda>c. c = 0) (Suc 0)
        \<lparr>present_cell = Some (0::nat), cell_similarity = translation, update_mapping = True\<rparr>)
     = none"
  using check_cell_similarity_classification
          [of 1 "\<lparr>present_cell = Some (0::nat), cell_similarity = translation,
                  update_mapping = True\<rparr>" 2 3 "\<lambda>a b. a = Suc b" "\<lambda>c. c = 0" "Suc 0"]
        check_cell_similarity_classification
          [of 4 "\<lparr>present_cell = Some (0::nat), cell_similarity = translation,
                  update_mapping = True\<rparr>" 2 3 "\<lambda>a b. a = Suc b" "\<lambda>c. c = 0" "Suc 0"]
  by simp

text \<open>
  Claim C10.  After the classification step the stored similarity is never
  \<open>invalid_next_cell\<close>; a stored \<open>invalid_next_cell\<close> is turned into \<open>none\<close> by the
  classification step; and a reinit ends in \<open>invalid_next_cell\<close> only when
  \<open>update_mapping\<close> is set and the mapping's fill returned that value.
\<close>

theorem invalid_next_cell_only_from_mapping:
  "cell_similarity
     (check_cell_similarity cdim spacedim n_threads is_translation_of direction_flag cell fv)
     \<in> {none, translation, inverted_translation} \<and>
   (cell_similarity fv = invalid_next_cell \<longrightarrow>
      cell_similarity
        (check_cell_similarity cdim spacedim n_threads is_translation_of direction_flag cell fv)
        = none) \<and>
   (cell_similarity
      (reinit cdim spacedim n_threads is_translation_of direction_flag get_triangulation
         fill_fe_values cell fv) = invalid_next_cell \<longrightarrow>
      update_mapping fv \<and>
      (\<exists>s. s \<noteq> invalid_next_cell \<and> fill_fe_values (Some cell) s = invalid_next_cell))"
proof (intro conjI impI)
  show "cell_similarity
     (check_cell_similarity cdim spacedim n_threads is_translation_of direction_flag cell fv)
     \<in> {none, translation, inverted_translation}"
    by (simp add: check_cell_similarity_def Let_def split: option.splits)
next
  assume "cell_similarity fv = invalid_next_cell"
  then show "cell_similarity
        (check_cell_similarity cdim spacedim n_threads is_translation_of direction_flag cell fv)
        = none"
    by (simp add: check_cell_similarity_def Let_def split: option.splits)
next
  let ?fv0 = "maybe_invalidate_previous_present_cell get_triangulation cell fv"
  let ?fv1 = "check_cell_similarity cdim spacedim n_threads is_translation_of direction_flag
                cell ?fv0"
  assume inv: "cell_similarity
      (reinit cdim spacedim n_threads is_translation_of direction_flag get_triangulation
         fill_fe_values cell fv) = invalid_next_cell"
  have ne: "cell_similarity ?fv1 \<noteq> invalid_next_cell"
    by (simp add: check_cell_similarity_def Let_def split: option.splits)
  have um: "update_mapping ?fv1 = update_mapping fv"
    by (simp add: check_cell_similarity_def maybe_invalidate_previous_present_cell_def Let_def
             split: option.splits)
  from inv ne have m: "update_mapping ?fv1"
    by (auto simp: reinit_def do_reinit_def split: if_splits)
  with inv have "fill_fe_values (Some cell) (cell_similarity ?fv1) = invalid_next_cell"
    by (simp add: reinit_def do_reinit_def)
  with ne show "\<exists>s. s \<noteq> invalid_next_cell \<and> fill_fe_values (Some cell) s = invalid_next_cell"
    by blast
  from m um show "update_mapping fv" by simp
qed

theorem invalid_next_cell_only_from_mapping_witness:
  "cell_similarity
     (check_cell_similarity 2 2 1 (\<lambda>a b. True) (\<lambda>c. True) (1::nat)
        \<lparr>present_cell = Some 0, cell_similarity = invalid_next_cell, update_mapping = True\<rparr>)
     = none \<and>
   cell_similarity
     (reinit 2 2 1 (\<lambda>a b. True) (\<lambda>c. True) (\<lambda>c. ()) (\<lambda>c s. invalid_next_cell) (1::nat)
        \<lparr>present_cell = Some 0, cell_similarity = invalid_next_cell, update_mapping = True\<rparr>)
     = invalid_next_cell"
proof -
  let ?fv = "\<lparr>present_cell = Some (0::nat), cell_similarity = invalid_next_cell,
              update_mapping = True\<rparr>"
  have h: "cell_similarity ?fv = invalid_next_cell" by simp
  have r: "cell_similarity
     (reinit 2 2 1 (\<lambda>a b. True) (\<lambda>c. True) (\<lambda>c. ()) (\<lambda>c s. invalid_next_cell) (1::nat) ?fv)
     = invalid_next_cell"
    by (simp add: reinit_def do_reinit_def check_cell_similarity_def
          maybe_invalidate_previous_present_cell_def)
  from invalid_next_cell_only_from_mapping
         [of 2 2 1 "\<lambda>a b. True" "\<lambda>c. True" "1::nat" ?fv "\<lambda>c. ()" "\<lambda>c s. invalid_next_cell"]
  have "cell_similarity
     (check_cell_similarity 2 2 1 (\<lambda>a b. True) (\<lambda>c. True) (1::nat) ?fv) = none"
    using h by blast
  with r show ?thesis by blast
qed

lemma u32_id: "n < 4294967296 \<Longrightarrow> u32 n = n"
  by (simp add: u32_def)

lemma nnz_le: "nnz fe i k \<le> k"
  unfolding nnz_def by (metis length_filter_le length_upt diff_zero)

lemma nnz_Suc: "nnz fe i (Suc k) = (if get_nonzero_components fe i k then Suc (nnz fe i k) else nnz fe i k)"
  by (simp add: nnz_def)

lemma nnz_mono: "k \<le> k' \<Longrightarrow> nnz fe i k \<le> nnz fe i k'"
  by (induction k' ) (auto simp: nnz_Suc le_Suc_eq)

lemma index_inj:
  fixes n :: nat
  assumes "c < n" "c' < n" "i * n + c = i' * n + c'"
  shows "i = i' \<and> c = c'"
proof -
  have a: "(i * n + c) div n = i" and b: "(i' * n + c') div n = i'"
    using assms(1,2) by simp_all
  from a b assms(3) have "i = i'" by metis
  with assms(3) show ?thesis by simp
qed

lemma component_loop:
  assumes k: "k \<le> n_components fe"
      and fit: "i * n_components fe + n_components fe < 4294967296"
      and rowfit: "row + n_components fe < 4294967296"
  shows "snd (fold (row_table_component fe i row) [0..<k] (tab, 0)) = nnz fe i k \<and>
         length (fst (fold (row_table_component fe i row) [0..<k] (tab, 0))) = length tab \<and>
         (\<forall>i' c. c < n_components fe \<longrightarrow> i' * n_components fe + c < length tab \<longrightarrow>
            fst (fold (row_table_component fe i row) [0..<k] (tab, 0)) ! (i' * n_components fe + c)
              = (if i' = i \<and> c < k \<and> get_nonzero_components fe i c then row + nnz fe i c
                 else tab ! (i' * n_components fe + c)))"
  using k
proof (induction k)
  case 0
  then show ?case by (simp add: nnz_def)
next
  case (Suc k)
  obtain t m where st: "fold (row_table_component fe i row) [0..<k] (tab, 0) = (t, m)"
    by (cases "fold (row_table_component fe i row) [0..<k] (tab, 0)") auto
  from Suc st have IH: "m = nnz fe i k" "length t = length tab"
    "\<And>i' c. c < n_components fe \<Longrightarrow> i' * n_components fe + c < length tab \<Longrightarrow>
        t ! (i' * n_components fe + c)
              = (if i' = i \<and> c < k \<and> get_nonzero_components fe i c then row + nnz fe i c
                 else tab ! (i' * n_components fe + c))"
    by simp_all
  have kn: "k < n_components fe" using Suc.prems by simp
  have nk: "nnz fe i k \<le> k" by (rule nnz_le)
  show ?case
  proof (cases "get_nonzero_components fe i k")
    case False
    then have "fold (row_table_component fe i row) [0..<Suc k] (tab, 0) = (t, m)"
      by (simp add: row_table_component_def st)
    then show ?thesis using IH False by (auto simp: nnz_Suc less_Suc_eq)
  next
    case True
    have u1: "u32 (i * n_components fe + k) = i * n_components fe + k"
      using kn fit by (intro u32_id) simp
    have u2: "u32 (row + nnz fe i k) = row + nnz fe i k"
      using kn nk rowfit by (intro u32_id) simp
    have u3: "u32 (nnz fe i k + 1) = Suc (nnz fe i k)"
      using kn nk rowfit by (simp add: u32_id)
    have step: "fold (row_table_component fe i row) [0..<Suc k] (tab, 0)
        = (t[i * n_components fe + k := row + nnz fe i k], Suc (nnz fe i k))"
      using True u1 u2 u3 by (simp add: row_table_component_def st IH(1))
    have third: "t[i * n_components fe + k := row + nnz fe i k] ! (i' * n_components fe + c)
              = (if i' = i \<and> c < Suc k \<and> get_nonzero_components fe i c then row + nnz fe i c
                 else tab ! (i' * n_components fe + c))"
      if c: "c < n_components fe" and idx: "i' * n_components fe + c < length tab" for i' c
    proof (cases "i' = i \<and> c = k")
      case True
      with idx IH(2) \<open>get_nonzero_components fe i k\<close> show ?thesis by simp
    next
      case False
      with index_inj[OF kn c] have "i * n_components fe + k \<noteq> i' * n_components fe + c"
        by blast
      then have "t[i * n_components fe + k := row + nnz fe i k] ! (i' * n_components fe + c)
                 = t ! (i' * n_components fe + c)" by simp
      with IH(3)[OF c idx] False show ?thesis by (auto simp: less_Suc_eq)
    qed
    show ?thesis
      unfolding step using True IH(2) third by (simp add: nnz_Suc)
  qed
qed


lemma index_bound:
  fixes n :: nat
  assumes "i < d" "c < n"
  shows "i * n + c < d * n"
proof -
  have "i * n + c < Suc i * n" using assms(2) by simp
  also have "\<dots> \<le> d * n" using assms(1) by (intro mult_le_mono1) simp
  finally show ?thesis .
qed

lemma first_row_Suc: "first_row fe (Suc i) = first_row fe i + n_nonzero_components fe i"
  by (simp add: first_row_def)

lemma first_row_le:
  assumes "consistent_counts fe" "m \<le> n_dofs_per_cell fe"
  shows "first_row fe m \<le> m * n_components fe"
  using assms(2)
proof (induction m)
  case 0
  then show ?case by (simp add: first_row_def)
next
  case (Suc m)
  then have "n_nonzero_components fe m = nnz fe m (n_components fe)"
    using assms(1) by (simp add: consistent_counts_def)
  then have "n_nonzero_components fe m \<le> n_components fe" by (simp add: nnz_le)
  with Suc show ?case by (simp add: first_row_Suc)
qed

lemma shape_function_loop:
  assumes cc: "consistent_counts fe" and m: "m \<le> n_dofs_per_cell fe"
  shows "snd (fold (row_table_shape_function fe) [0..<m]
                (replicate (n_dofs_per_cell fe * n_components fe) invalid_unsigned_int, 0))
           = first_row fe m \<and>
         length (fst (fold (row_table_shape_function fe) [0..<m]
                (replicate (n_dofs_per_cell fe * n_components fe) invalid_unsigned_int, 0)))
           = n_dofs_per_cell fe * n_components fe \<and>
         (\<forall>i c. c < n_components fe \<longrightarrow> i < n_dofs_per_cell fe \<longrightarrow>
            fst (fold (row_table_shape_function fe) [0..<m]
                (replicate (n_dofs_per_cell fe * n_components fe) invalid_unsigned_int, 0))
              ! (i * n_components fe + c)
              = (if i < m \<and> get_nonzero_components fe i c then first_row fe i + nnz fe i c
                 else invalid_unsigned_int))"
  using m
proof (induction m)
  case 0
  then show ?case by (simp add: first_row_def index_bound)
next
  case (Suc m)
  let ?n = "n_components fe" and ?d = "n_dofs_per_cell fe"
  obtain t r where st: "fold (row_table_shape_function fe) [0..<m]
                (replicate (?d * ?n) invalid_unsigned_int, 0) = (t, r)"
    by (cases "fold (row_table_shape_function fe) [0..<m]
                (replicate (?d * ?n) invalid_unsigned_int, 0)") auto
  from Suc st have IH: "r = first_row fe m" "length t = ?d * ?n"
    "\<And>i c. c < ?n \<Longrightarrow> i < ?d \<Longrightarrow>
        t ! (i * ?n + c) = (if i < m \<and> get_nonzero_components fe i c
                            then first_row fe i + nnz fe i c else invalid_unsigned_int)"
    by simp_all
  have md: "m < ?d" using Suc.prems by simp
  have big: "?d * ?n < 2147483648" using cc by (simp add: consistent_counts_def)
  have cnt: "n_nonzero_components fe m = nnz fe m ?n"
    using cc md by (simp add: consistent_counts_def)
  have rle: "first_row fe m \<le> m * ?n" using first_row_le[OF cc] md by simp
  have sm: "Suc m * ?n \<le> ?d * ?n" using md by (intro mult_le_mono1) simp
  have fit: "m * ?n + ?n < 4294967296" using sm big by simp
  have rowfit: "first_row fe m + ?n < 4294967296" using rle sm big by simp
  note cl = component_loop[OF le_refl fit rowfit, of t]
  have u: "u32 (first_row fe m + n_nonzero_components fe m) = first_row fe (Suc m)"
    using rowfit cnt nnz_le[of fe m ?n] by (simp add: first_row_Suc u32_id)
  have step: "fold (row_table_shape_function fe) [0..<Suc m]
                (replicate (?d * ?n) invalid_unsigned_int, 0)
      = (fst (fold (row_table_component fe m (first_row fe m)) [0..<?n] (t, 0)),
         first_row fe (Suc m))"
    using u by (simp add: st row_table_shape_function_def IH(1))
  have third: "fst (fold (row_table_component fe m (first_row fe m)) [0..<?n] (t, 0))
                 ! (i * ?n + c)
              = (if i < Suc m \<and> get_nonzero_components fe i c then first_row fe i + nnz fe i c
                 else invalid_unsigned_int)"
    if c: "c < ?n" and i: "i < ?d" for i c
  proof -
    have idx: "i * ?n + c < length t" using index_bound[OF i c] IH(2) by simp
    from cl c idx have "fst (fold (row_table_component fe m (first_row fe m)) [0..<?n] (t, 0))
                 ! (i * ?n + c)
       = (if i = m \<and> c < ?n \<and> get_nonzero_components fe m c then first_row fe m + nnz fe m c
                 else t ! (i * ?n + c))" by blast
    with IH(3)[OF c i] c show ?thesis by (auto simp: less_Suc_eq)
  qed
  show ?case unfolding step using cl IH(2) third by simp
qed

lemma row_table_entries:
  assumes cc: "consistent_counts fe"
  shows "length (make_shape_function_to_row_table fe) = n_dofs_per_cell fe * n_components fe"
    and "i < n_dofs_per_cell fe \<Longrightarrow> c < n_components fe \<Longrightarrow>
         make_shape_function_to_row_table fe ! (i * n_components fe + c)
           = (if get_nonzero_components fe i c then first_row fe i + nnz fe i c
              else invalid_unsigned_int)"
proof -
  have big: "n_dofs_per_cell fe * n_components fe < 2147483648"
    using cc by (simp add: consistent_counts_def)
  then have u: "u32 (n_dofs_per_cell fe * n_components fe) = n_dofs_per_cell fe * n_components fe"
    by (simp add: u32_id)
  note sl = shape_function_loop[OF cc le_refl]
  show "length (make_shape_function_to_row_table fe) = n_dofs_per_cell fe * n_components fe"
    using sl by (simp add: make_shape_function_to_row_table_def u)
  show "make_shape_function_to_row_table fe ! (i * n_components fe + c)
           = (if get_nonzero_components fe i c then first_row fe i + nnz fe i c
              else invalid_unsigned_int)"
    if "i < n_dofs_per_cell fe" "c < n_components fe"
    using sl that by (simp add: make_shape_function_to_row_table_def u)
qed

lemma row_in_range:
  assumes cc: "consistent_counts fe" and i: "i < n_dofs_per_cell fe" and c: "c < n_components fe"
      and nz: "get_nonzero_components fe i c"
  shows "first_row fe i + nnz fe i c < first_row fe (Suc i)"
    and "first_row fe i + nnz fe i c < 2147483648"
proof -
  have cnt: "n_nonzero_components fe i = nnz fe i (n_components fe)"
    using cc i by (simp add: consistent_counts_def)
  have "nnz fe i (Suc c) \<le> nnz fe i (n_components fe)" using c by (intro nnz_mono) simp
  with nz have "nnz fe i c < nnz fe i (n_components fe)" by (simp add: nnz_Suc)
  with cnt show a: "first_row fe i + nnz fe i c < first_row fe (Suc i)"
    by (simp add: first_row_Suc)
  have "first_row fe (Suc i) \<le> Suc i * n_components fe"
    using first_row_le[OF cc, of "Suc i"] i by simp
  also have "\<dots> \<le> n_dofs_per_cell fe * n_components fe" using i by (intro mult_le_mono1) simp
  also have "\<dots> < 2147483648" using cc by (simp add: consistent_counts_def)
  finally show "first_row fe i + nnz fe i c < 2147483648" using a by simp
qed


lemma upt_rows: "concat (map (\<lambda>i. map (\<lambda>c. i * n + c) [0..<n]) [0..<d]) = [0..<d * n]"
proof (induction d)
  case 0
  then show ?case by simp
next
  case (Suc d)
  have a: "map (\<lambda>c. d * n + c) [0..<n] = [d * n..<d * n + n]"
    using map_add_upt[of "d * n" n] by (simp add: add.commute)
  have "[0..<d * n + n] = [0..<d * n] @ [d * n..<d * n + n]"
    by (rule upt_add_eq_append) simp
  moreover have "Suc d * n = d * n + n" by simp
  ultimately have b: "[0..<Suc d * n] = [0..<d * n] @ [d * n..<d * n + n]"
    by (simp only:)
  have "concat (map (\<lambda>i. map (\<lambda>c. i * n + c) [0..<n]) [0..<Suc d])
        = concat (map (\<lambda>i. map (\<lambda>c. i * n + c) [0..<n]) [0..<d]) @ map (\<lambda>c. d * n + c) [0..<n]"
    by simp
  with Suc a b show ?case by (simp only:)
qed

lemma table_as_rows:
  assumes "length tab = d * n"
  shows "tab = concat (map (\<lambda>i. map (\<lambda>c. tab ! (i * n + c)) [0..<n]) [0..<d])"
proof -
  have "tab = map ((!) tab) [0..<d * n]" using assms by (metis map_nth)
  also have "\<dots> = map ((!) tab) (concat (map (\<lambda>i. map (\<lambda>c. i * n + c) [0..<n]) [0..<d]))"
    by (simp only: upt_rows)
  also have "\<dots> = concat (map (\<lambda>i. map (\<lambda>c. tab ! (i * n + c)) [0..<n]) [0..<d])"
    by (simp add: map_concat comp_def)
  finally show ?thesis .
qed

lemma filter_row:
  assumes "b + k < invalid_unsigned_int"
  shows "filter (\<lambda>r. r \<noteq> invalid_unsigned_int)
           (map (\<lambda>c. if get_nonzero_components fe i c then b + nnz fe i c
                      else invalid_unsigned_int) [0..<k])
         = [b..<b + nnz fe i k]"
  using assms
proof (induction k)
  case 0
  then show ?case by (simp add: nnz_def)
next
  case (Suc k)
  have "nnz fe i k \<le> k" by (rule nnz_le)
  with Suc show ?case by (simp add: nnz_Suc)
qed

lemma concat_upt_Suc: "concat (map f [0..<Suc d]) = concat (map f [0..<d]) @ f d"
  by simp

lemma concat_intervals:
  "concat (map (\<lambda>i. [first_row fe i..<first_row fe (Suc i)]) [0..<d]) = [0..<first_row fe d]"
proof (induction d)
  case 0
  then show ?case by (simp add: first_row_def)
next
  case (Suc d)
  have "[0..<first_row fe (Suc d)] = [0..<first_row fe d] @ [first_row fe d..<first_row fe (Suc d)]"
    unfolding first_row_Suc by (rule upt_add_eq_append) simp
  with Suc show ?case by (simp only: concat_upt_Suc)
qed

lemma row_table_filter:
  assumes cc: "consistent_counts fe"
  shows "filter (\<lambda>r. r \<noteq> invalid_unsigned_int) (make_shape_function_to_row_table fe)
         = [0..<first_row fe (n_dofs_per_cell fe)]"
proof -
  let ?n = "n_components fe" and ?d = "n_dofs_per_cell fe"
  let ?tab = "make_shape_function_to_row_table fe"
  have row: "filter (\<lambda>r. r \<noteq> invalid_unsigned_int) (map (\<lambda>c. ?tab ! (i * ?n + c)) [0..<?n])
               = [first_row fe i..<first_row fe (Suc i)]" if i: "i < ?d" for i
  proof -
    have e: "map (\<lambda>c. ?tab ! (i * ?n + c)) [0..<?n]
        = map (\<lambda>c. if get_nonzero_components fe i c then first_row fe i + nnz fe i c
                      else invalid_unsigned_int) [0..<?n]"
      using row_table_entries(2)[OF cc i] by (intro map_cong) simp_all
    have "first_row fe i \<le> i * ?n" using first_row_le[OF cc, of i] i by simp
    moreover have "i * ?n + ?n \<le> ?d * ?n"
      using mult_le_mono1[of "Suc i" ?d ?n] i by simp
    moreover have "?d * ?n < 2147483648" using cc by (simp add: consistent_counts_def)
    ultimately have "first_row fe i + ?n < invalid_unsigned_int"
      by (simp add: invalid_unsigned_int_def)
    from filter_row[OF this, of fe i] have
      "filter (\<lambda>r. r \<noteq> invalid_unsigned_int) (map (\<lambda>c. ?tab ! (i * ?n + c)) [0..<?n])
         = [first_row fe i..<first_row fe i + nnz fe i ?n]"
      by (simp only: e)
    moreover have "n_nonzero_components fe i = nnz fe i ?n"
      using cc i by (simp add: consistent_counts_def)
    ultimately show ?thesis by (simp add: first_row_Suc)
  qed
  have "filter (\<lambda>r. r \<noteq> invalid_unsigned_int) ?tab
      = filter (\<lambda>r. r \<noteq> invalid_unsigned_int)
          (concat (map (\<lambda>i. map (\<lambda>c. ?tab ! (i * ?n + c)) [0..<?n]) [0..<?d]))"
    by (rule arg_cong[where f = "filter (\<lambda>r. r \<noteq> invalid_unsigned_int)",
                      OF table_as_rows[OF row_table_entries(1)[OF cc]]])
  also have "\<dots> = concat (map (\<lambda>i. filter (\<lambda>r. r \<noteq> invalid_unsigned_int)
                             (map (\<lambda>c. ?tab ! (i * ?n + c)) [0..<?n])) [0..<?d])"
    by (simp only: filter_concat map_map comp_def)
  also have "\<dots> = concat (map (\<lambda>i. [first_row fe i..<first_row fe (Suc i)]) [0..<?d])"
    using row by (intro arg_cong[where f = concat] map_cong) simp_all
  finally show ?thesis by (simp only: concat_intervals)
qed

text \<open>
  Claim C2.  For a finite-element descriptor with consistent counts, the row table has
  one entry per (shape function, component) pair; an entry differs from the sentinel
  exactly when the component's non-zero bit is set, so the row of shape function \<open>i\<close>
  has \<^verbatim>\<open>n_nonzero_components(i)\<close> non-sentinel entries; and the non-sentinel
  entries, read in table order (shape function, then component), are
  \<open>0, 1, \<dots>, total - 1\<close>, where \<open>total\<close> is the number of (shape function, non-zero
  component) pairs: a contiguous range without gaps or repeats, assigned in increasing
  component order.
\<close>

theorem row_table_complete:
  assumes "consistent_counts fe"
  shows "length (make_shape_function_to_row_table fe) = n_dofs_per_cell fe * n_components fe \<and>
         (\<forall>i < n_dofs_per_cell fe. \<forall>c < n_components fe.
            (make_shape_function_to_row_table fe ! (i * n_components fe + c)
               \<noteq> invalid_unsigned_int) = get_nonzero_components fe i c) \<and>
         (\<forall>i < n_dofs_per_cell fe.
            length (filter (\<lambda>c. make_shape_function_to_row_table fe ! (i * n_components fe + c)
                                  \<noteq> invalid_unsigned_int) [0..<n_components fe])
              = n_nonzero_components fe i) \<and>
         filter (\<lambda>r. r \<noteq> invalid_unsigned_int) (make_shape_function_to_row_table fe)
           = [0..<(\<Sum>i < n_dofs_per_cell fe. n_nonzero_components fe i)]"
proof (intro conjI allI impI)
  show "length (make_shape_function_to_row_table fe) = n_dofs_per_cell fe * n_components fe"
    by (rule row_table_entries(1)[OF assms])
next
  fix i c assume i: "i < n_dofs_per_cell fe" and c: "c < n_components fe"
  show "(make_shape_function_to_row_table fe ! (i * n_components fe + c)
               \<noteq> invalid_unsigned_int) = get_nonzero_components fe i c"
    using row_table_entries(2)[OF assms i c] row_in_range(2)[OF assms i c]
    by (cases "get_nonzero_components fe i c") (simp_all add: invalid_unsigned_int_def)
next
  fix i assume i: "i < n_dofs_per_cell fe"
  have "filter (\<lambda>c. make_shape_function_to_row_table fe ! (i * n_components fe + c)
                                  \<noteq> invalid_unsigned_int) [0..<n_components fe]
        = filter (get_nonzero_components fe i) [0..<n_components fe]"
  proof (intro filter_cong refl)
    fix c assume "c \<in> set [0..<n_components fe]"
    then have c: "c < n_components fe" by simp
    show "(make_shape_function_to_row_table fe ! (i * n_components fe + c)
            \<noteq> invalid_unsigned_int) = get_nonzero_components fe i c"
      using row_table_entries(2)[OF assms i c] row_in_range(2)[OF assms i c]
      by (cases "get_nonzero_components fe i c") (simp_all add: invalid_unsigned_int_def)
  qed
  then show "length (filter (\<lambda>c. make_shape_function_to_row_table fe ! (i * n_components fe + c)
                                  \<noteq> invalid_unsigned_int) [0..<n_components fe])
              = n_nonzero_components fe i"
    using assms i by (simp add: consistent_counts_def nnz_def)
next
  show "filter (\<lambda>r. r \<noteq> invalid_unsigned_int) (make_shape_function_to_row_table fe)
           = [0..<(\<Sum>i < n_dofs_per_cell fe. n_nonzero_components fe i)]"
    using row_table_filter[OF assms] by (simp add: first_row_def)
qed

lemma for_each_entry_length [simp]: "length (for_each_entry n f xs) = length xs"
  by (induction n) (simp_all add: for_each_entry_def)

lemma for_each_entry_Suc:
  "for_each_entry (Suc n) f xs
     = (for_each_entry n f xs)[n := f n (for_each_entry n f xs ! n)]"
  by (simp add: for_each_entry_def)

lemma for_each_entry_nth:
  "i < length xs \<Longrightarrow>
   for_each_entry n f xs ! i = (if i < n then f i (xs ! i) else xs ! i)"
proof (induction n)
  case 0
  then show ?case by (simp add: for_each_entry_def)
next
  case (Suc n)
  let ?ys = "for_each_entry n f xs"
  have IH: "?ys ! i = (if i < n then f i (xs ! i) else xs ! i)" using Suc by simp
  show ?case
  proof (cases "i = n")
    case True
    then have "?ys[n := f n (?ys ! n)] ! i = f n (?ys ! n)" using Suc.prems by simp
    with IH True show ?thesis by (simp add: for_each_entry_Suc)
  next
    case False
    then have "?ys[n := f n (?ys ! n)] ! i = ?ys ! i" by simp
    with IH False show ?thesis by (simp add: for_each_entry_Suc less_Suc_eq)
  qed
qed

lemma fold_for_each_entry_length [simp]:
  "length (fold (\<lambda>d. for_each_entry m (g d)) ds xs) = length xs"
  by (induction ds arbitrary: xs) simp_all

lemma fold_for_each_entry_nth:
  "i < m \<Longrightarrow> i < length xs \<Longrightarrow>
   fold (\<lambda>d. for_each_entry m (g d)) ds xs ! i = fold (\<lambda>d. g d i) ds (xs ! i)"
  by (induction ds arbitrary: xs) (simp_all add: for_each_entry_nth)

lemma count_loop:
  "fold (\<lambda>d n. if P d then n + 1 else n) [0..<K] (0::nat) = length (filter P [0..<K])"
  by (induction K) simp_all

lemma filter_unique:
  assumes "d < K" "P d" "\<forall>d' < K. P d' \<longrightarrow> d' = d"
  shows "length (filter P [0..<K]) = 1"
  using assms
proof (induction K)
  case 0
  then show ?case by blast
next
  case (Suc K)
  have u: "d' = d" if "d' < Suc K" "P d'" for d' using Suc.prems(3) that by blast
  show ?case
  proof (cases "d = K")
    case True
    have "\<not> P d'" if "d' < K" for d'
    proof
      assume "P d'"
      then have "d' = d" using u[of d'] that by linarith
      with True that show False by linarith
    qed
    then have "filter P [0..<K] = []" by (simp add: filter_empty_conv)
    moreover have "P K" using True Suc.prems(2) by blast
    ultimately show ?thesis by simp
  next
    case False
    with Suc.prems(1) have dK: "d < K" by linarith
    have "\<not> P K"
    proof
      assume "P K"
      then have "K = d" using u[of K] by blast
      with dK show False by linarith
    qed
    moreover have "\<forall>d' < K. P d' \<longrightarrow> d' = d" using u by (meson less_SucI)
    then have "length (filter P [0..<K]) = 1"
      by (rule Suc.IH[OF dK Suc.prems(2)])
    ultimately show ?thesis by simp
  qed
qed

lemma classify_zero:
  assumes "length (filter (is_nonzero_shape_function_component sfd) [0..<K]) = 0"
  shows "classify_shape_function K sfd = sfd\<lparr>single_nonzero_component := - 2\<rparr>"
  using assms by (simp add: classify_shape_function_def count_loop)

lemma classify_many:
  assumes "1 < length (filter (is_nonzero_shape_function_component sfd) [0..<K])"
  shows "classify_shape_function K sfd = sfd\<lparr>single_nonzero_component := - 1\<rparr>"
proof -
  from assms have "length (filter (is_nonzero_shape_function_component sfd) [0..<K]) \<noteq> 0"
    by linarith
  with assms show ?thesis
    unfolding classify_shape_function_def count_loop Let_def by (simp only: if_False if_True)
qed

lemma classify_one:
  assumes "length (filter (is_nonzero_shape_function_component sfd) [0..<K]) = 1"
      and "find (is_nonzero_shape_function_component sfd) [0..<K] = Some d0"
  shows "classify_shape_function K sfd
       = sfd\<lparr>single_nonzero_component := int_of_unsigned (row_index sfd d0),
              single_nonzero_component_index := d0\<rparr>"
  using assms unfolding classify_shape_function_def count_loop Let_def by simp

lemma classifier_consistentI:
  assumes "single_nonzero_component s = - 2 \<longleftrightarrow>
             (\<forall>d < K. \<not> is_nonzero_shape_function_component s d)"
      and "single_nonzero_component s = - 1 \<longleftrightarrow>
             1 < length (filter (is_nonzero_shape_function_component s) [0..<K])"
      and "\<And>d. d < K \<Longrightarrow> is_nonzero_shape_function_component s d \<Longrightarrow>
             \<forall>d' < K. is_nonzero_shape_function_component s d' \<longrightarrow> d' = d \<Longrightarrow>
             single_nonzero_component s = int (row_index s d) \<and>
             single_nonzero_component_index s = d"
  shows "classifier_consistent K s"
  unfolding classifier_consistent_def using assms by blast

lemma classify_consistent:
  assumes rows: "\<And>d. d < K \<Longrightarrow> is_nonzero_shape_function_component sfd d \<Longrightarrow>
                   row_index sfd d < 2147483648"
  shows "classifier_consistent K (classify_shape_function K sfd)"
proof -
  let ?P = "is_nonzero_shape_function_component sfd"
  let ?n = "length (filter ?P [0..<K])"
  have uniq: "?n = 1" if "d < K" "?P d" "\<forall>d' < K. ?P d' \<longrightarrow> d' = d" for d
    using filter_unique[OF that] .
  have some: "?n \<noteq> 0" if "d < K" "?P d" for d
    using that by (auto simp: filter_empty_conv)
  have none: "\<exists>d < K. ?P d" if "?n \<noteq> 0"
  proof (rule ccontr)
    assume "\<not> (\<exists>d < K. ?P d)"
    then have "filter ?P [0..<K] = []" by (simp add: filter_empty_conv)
    with that show False by simp
  qed
  consider (zero) "?n = 0" | (many) "1 < ?n" | (one) "?n = 1" by linarith
  then show ?thesis
  proof cases
    case zero
    let ?s = "sfd\<lparr>single_nonzero_component := - 2\<rparr>"
    have P: "is_nonzero_shape_function_component ?s = ?P" by simp
    have "classifier_consistent K ?s"
    proof (rule classifier_consistentI)
      have "\<forall>d < K. \<not> ?P d" using some zero by blast
      then show "single_nonzero_component ?s = - 2 \<longleftrightarrow>
             (\<forall>d < K. \<not> is_nonzero_shape_function_component ?s d)"
        unfolding P by simp
      show "single_nonzero_component ?s = - 1 \<longleftrightarrow>
             1 < length (filter (is_nonzero_shape_function_component ?s) [0..<K])"
        using zero unfolding P by simp
      show "single_nonzero_component ?s = int (row_index ?s d) \<and>
             single_nonzero_component_index ?s = d"
        if "d < K" "is_nonzero_shape_function_component ?s d" for d
      proof -
        have "?n \<noteq> 0" using that[unfolded P] by (intro some[of d])
        with zero have False by blast
        then show ?thesis ..
      qed
    qed
    then show ?thesis by (simp only: classify_zero[OF zero])
  next
    case many
    let ?s = "sfd\<lparr>single_nonzero_component := - 1\<rparr>"
    have P: "is_nonzero_shape_function_component ?s = ?P" by simp
    have "classifier_consistent K ?s"
    proof (rule classifier_consistentI)
      have "?n \<noteq> 0" using many by linarith
      then have "\<exists>d < K. ?P d" by (rule none)
      then show "single_nonzero_component ?s = - 2 \<longleftrightarrow>
             (\<forall>d < K. \<not> is_nonzero_shape_function_component ?s d)"
        unfolding P by simp
      show "single_nonzero_component ?s = - 1 \<longleftrightarrow>
             1 < length (filter (is_nonzero_shape_function_component ?s) [0..<K])"
        using many unfolding P by simp
      show "single_nonzero_component ?s = int (row_index ?s d) \<and>
             single_nonzero_component_index ?s = d"
        if "d < K" "is_nonzero_shape_function_component ?s d"
           "\<forall>d' < K. is_nonzero_shape_function_component ?s d' \<longrightarrow> d' = d" for d
      proof -
        have "?n = 1" using that[unfolded P] by (intro uniq[of d])
        with many have False by linarith
        then show ?thesis ..
      qed
    qed
    then show ?thesis by (simp only: classify_many[OF many])
  next
    case one
    have "?n \<noteq> 0" using one by linarith
    then have "\<exists>d < K. ?P d" by (rule none)
    then have "find ?P [0..<K] \<noteq> None" by (simp add: find_None_iff)
    then obtain d0 where f: "find ?P [0..<K] = Some d0" by blast
    have d0: "d0 < K" "?P d0" using f by (auto simp: find_Some_iff)
    have conv: "int_of_unsigned (row_index sfd d0) = int (row_index sfd d0)"
      using rows[OF d0] by (simp add: int_of_unsigned_def)
    let ?s = "sfd\<lparr>single_nonzero_component := int_of_unsigned (row_index sfd d0),
                     single_nonzero_component_index := d0\<rparr>"
    have P: "is_nonzero_shape_function_component ?s = ?P" by simp
    have snc: "single_nonzero_component ?s = int (row_index sfd d0)" using conv by simp
    have "classifier_consistent K ?s"
    proof (rule classifier_consistentI)
      show "single_nonzero_component ?s = - 2 \<longleftrightarrow>
             (\<forall>d < K. \<not> is_nonzero_shape_function_component ?s d)"
      proof -
        have "\<not> (\<forall>d < K. \<not> ?P d)" using d0 by blast
        then show ?thesis unfolding P snc by simp
      qed
      show "single_nonzero_component ?s = - 1 \<longleftrightarrow>
             1 < length (filter (is_nonzero_shape_function_component ?s) [0..<K])"
        unfolding P snc using one by simp
      show "single_nonzero_component ?s = int (row_index ?s d) \<and>
             single_nonzero_component_index ?s = d"
        if "d < K" "is_nonzero_shape_function_component ?s d"
           "\<forall>d' < K. is_nonzero_shape_function_component ?s d' \<longrightarrow> d' = d" for d
      proof -
        from that(3) d0 have "d0 = d" unfolding P by blast
        with conv show ?thesis by simp
      qed
    qed
    then show ?thesis by (simp only: classify_one[OF one f])
  qed
qed

lemma u32_le: "u32 n \<le> n"
  by (simp add: u32_def)

lemma u32_pred: "0 < x \<Longrightarrow> u32 (x + 4294967295) \<le> x - 1"
proof -
  assume "0 < x"
  then have "x + 4294967295 = (x - 1) + 1 * 4294967296" by simp
  then have "u32 (x + 4294967295) = (x - 1) mod 4294967296"
    unfolding u32_def by (metis mod_mult_self1)
  then show ?thesis by simp
qed

lemma fill_flags:
  fixes fe tab first i
  defines "entry \<equiv> \<lambda>d. nonzero_component_entry fe tab (u32 (first + d)) i"
  shows "is_nonzero_shape_function_component
           (fold (\<lambda>d. set_component_flags fe tab first d i) [0..<k] s) d
         = (if d < k then fst (entry d) else is_nonzero_shape_function_component s d) \<and>
         row_index (fold (\<lambda>d. set_component_flags fe tab first d i) [0..<k] s) d
         = (if d < k then snd (entry d) else row_index s d)"
proof (induction k)
  case 0
  then show ?case by simp
next
  case (Suc k)
  then show ?case
    by (simp add: set_component_flags_def entry_def less_Suc_eq split: prod.splits)
qed

lemma shape_function_data_nth:
  assumes "i < n_dofs_per_cell fe"
  shows "make_shape_function_data fe first K ! i
         = classify_shape_function K
             (fold (\<lambda>d. set_component_flags fe (make_shape_function_to_row_table fe) first d i)
                [0..<K]
                \<lparr>is_nonzero_shape_function_component = (\<lambda>d. False),
                 row_index = (\<lambda>d. 0),
                 single_nonzero_component = 0,
                 single_nonzero_component_index = 0\<rparr>)"
  using assms
  by (simp add: make_shape_function_data_def Let_def for_each_entry_nth fold_for_each_entry_nth)

lemma shape_function_data_length [simp]:
  "length (make_shape_function_data fe first K) = n_dofs_per_cell fe"
  by (simp add: make_shape_function_data_def Let_def)

lemma entry_row_bound:
  assumes cf: "consistent_fe fe" and i: "i < n_dofs_per_cell fe"
      and c: "c < n_components fe"
      and nz: "fst (nonzero_component_entry fe (make_shape_function_to_row_table fe) c i)"
  shows "snd (nonzero_component_entry fe (make_shape_function_to_row_table fe) c i) < 2147483648"
proof -
  have cc: "consistent_counts fe" using cf by (simp add: consistent_fe_def)
  have bit: "get_nonzero_components fe i c"
  proof (cases "is_primitive fe \<or> is_primitive_shape fe i")
    case True
    with nz have "c = system_to_component_index fe i"
      by (simp add: nonzero_component_entry_def Let_def)
    moreover from cf i True
    have "get_nonzero_components fe i (system_to_component_index fe i)"
      unfolding consistent_fe_def by blast
    ultimately show ?thesis by simp
  next
    case False
    with nz show ?thesis by (simp add: nonzero_component_entry_def Let_def)
  qed
  have "i * n_components fe + c < n_dofs_per_cell fe * n_components fe"
    by (rule index_bound[OF i c])
  also have "\<dots> < 2147483648" using cc by (simp add: consistent_counts_def)
  finally have "u32 (i * n_components fe + c) = i * n_components fe + c"
    by (simp add: u32_id)
  with nz have "snd (nonzero_component_entry fe (make_shape_function_to_row_table fe) c i)
        = make_shape_function_to_row_table fe ! (i * n_components fe + c)"
    by (simp add: nonzero_component_entry_def Let_def)
  also have "\<dots> = first_row fe i + nnz fe i c"
    using row_table_entries(2)[OF cc i c] bit by simp
  also have "\<dots> < 2147483648" by (rule row_in_range(2)[OF cc i c bit])
  finally show ?thesis .
qed

lemma view_data_consistent:
  assumes cf: "consistent_fe fe" and i: "i < n_dofs_per_cell fe"
      and fit: "first + K \<le> n_components fe"
  shows "classifier_consistent K (make_shape_function_data fe first K ! i)"
  unfolding shape_function_data_nth[OF i]
proof (rule classify_consistent)
  fix d
  let ?tab = "make_shape_function_to_row_table fe"
  let ?s = "fold (\<lambda>d. set_component_flags fe ?tab first d i) [0..<K]
                \<lparr>is_nonzero_shape_function_component = (\<lambda>d. False),
                 row_index = (\<lambda>d. 0),
                 single_nonzero_component = 0,
                 single_nonzero_component_index = 0\<rparr>"
  assume d: "d < K" and fl: "is_nonzero_shape_function_component ?s d"
  have cc: "consistent_counts fe" using cf by (simp add: consistent_fe_def)
  have c: "first + d < n_components fe" using d fit by simp
  have "n_components fe \<le> n_dofs_per_cell fe * n_components fe" using i by simp
  also have "\<dots> < 2147483648" using cc by (simp add: consistent_counts_def)
  finally have u: "u32 (first + d) = first + d" using c by (simp add: u32_id)
  from fill_flags[of fe ?tab first i K _ d] d fl u
  have nz: "fst (nonzero_component_entry fe ?tab (first + d) i)" by simp
  from fill_flags[of fe ?tab first i K _ d] d u
  have "row_index ?s d = snd (nonzero_component_entry fe ?tab (first + d) i)" by simp
  with entry_row_bound[OF cf i c nz] show "row_index ?s d < 2147483648" by simp
qed

lemma ctor_succeeds:
  assumes "0 < K" "first + K \<le> n"
  shows "u32 (first + K + 4294967295) < n"
proof -
  have "u32 (first + K + 4294967295) \<le> first + K - 1"
    using u32_pred[of "first + K"] assms(1) by simp
  with assms show ?thesis by simp
qed

text \<open>
  Claim C1.  For a consistent finite-element descriptor, a component offset whose
  window fits into the element's components, and every shape function \<open>i\<close>, the
  constructors of the vector, symmetric tensor and tensor views succeed and the
  classifier of shape function \<open>i\<close> is \<open>-2\<close> exactly when all \<open>K\<close> flags are false,
  \<open>-1\<close> exactly when more than one flag is true, and otherwise the row index of the
  only sub-component \<open>d\<close> whose flag is true, with
  \<^verbatim>\<open>single_nonzero_component_index\<close> equal to \<open>d\<close>.
\<close>

theorem classifier_consistency:
  assumes "consistent_fe fe" "i < n_dofs_per_cell fe"
  shows "(0 < spacedim \<and> first + spacedim \<le> n_components fe \<longrightarrow>
           (\<exists>v. Vector_ctor spacedim fe first = Inr v \<and>
                classifier_consistent spacedim (shape_function_data v ! i))) \<and>
         (0 < cdim \<and> first + symmetric_n_independent_components cdim \<le> n_components fe \<longrightarrow>
           (\<exists>v. SymmetricTensor_ctor cdim fe first = Inr v \<and>
                classifier_consistent (symmetric_n_independent_components cdim)
                  (shape_function_data v ! i))) \<and>
         (0 < cdim \<and> first + cdim * cdim \<le> n_components fe \<longrightarrow>
           (\<exists>v. Tensor_ctor cdim fe first = Inr v \<and>
                classifier_consistent (cdim * cdim) (shape_function_data v ! i)))"
proof (intro conjI impI)
  assume "0 < spacedim \<and> first + spacedim \<le> n_components fe"
  then show "\<exists>v. Vector_ctor spacedim fe first = Inr v \<and>
                classifier_consistent spacedim (shape_function_data v ! i)"
    using ctor_succeeds[of spacedim first "n_components fe"]
          view_data_consistent[OF assms, of first spacedim]
    by (simp add: Vector_ctor_def)
next
  assume a: "0 < cdim \<and> first + symmetric_n_independent_components cdim \<le> n_components fe"
  then have "0 < symmetric_n_independent_components cdim"
    by (cases cdim) (simp_all add: symmetric_n_independent_components_def)
  with a show "\<exists>v. SymmetricTensor_ctor cdim fe first = Inr v \<and>
                classifier_consistent (symmetric_n_independent_components cdim)
                  (shape_function_data v ! i)"
    using ctor_succeeds[of "symmetric_n_independent_components cdim" first "n_components fe"]
          view_data_consistent[OF assms, of first "symmetric_n_independent_components cdim"]
    by (simp add: SymmetricTensor_ctor_def symmetric_n_independent_components_def)
next
  assume "0 < cdim \<and> first + cdim * cdim \<le> n_components fe"
  then show "\<exists>v. Tensor_ctor cdim fe first = Inr v \<and>
                classifier_consistent (cdim * cdim) (shape_function_data v ! i)"
    using ctor_succeeds[of "cdim * cdim" first "n_components fe"]
          view_data_consistent[OF assms, of first "cdim * cdim"]
    by (simp add: Tensor_ctor_def)
qed

lemma emplace_views_all:
  assumes "\<And>c. c \<in> set cs \<Longrightarrow> \<exists>v. ctor c = Inr v \<and> key v = c"
  shows "\<exists>vs. emplace_views ctor cs = Inr vs \<and> map key vs = cs"
  using assms
proof (induction cs)
  case Nil
  then show ?case by simp
next
  case (Cons c cs)
  from Cons.prems[of c] obtain v where v: "ctor c = Inr v" "key v = c" by auto
  from Cons.IH Cons.prems obtain vs where vs: "emplace_views ctor cs = Inr vs" "map key vs = cs"
    by auto
  from v vs show ?case by simp
qed

lemma n_views_eq:
  assumes "0 < k" "n < 4294967296"
  shows "n_views n k = (if k \<le> n then n - k + 1 else 0)"
  using assms by (simp add: n_views_def u32_id)

lemma window_fits:
  assumes "c < n_views n k" "0 < k" "n < 4294967296" "k' \<le> k"
  shows "c + k' \<le> n"
proof -
  from assms(1) n_views_eq[OF assms(2,3)] have "k \<le> n \<and> c < n - k + 1"
    by (cases "k \<le> n") simp_all
  with assms(4) show ?thesis by linarith
qed

lemma symmetric_n_independent_components_mono:
  "a \<le> b \<Longrightarrow> symmetric_n_independent_components a \<le> symmetric_n_independent_components b"
  unfolding symmetric_n_independent_components_def
  by (intro div_le_mono add_le_mono mult_le_mono)

lemma symmetric_n_independent_components_pos:
  "0 < a \<Longrightarrow> 0 < symmetric_n_independent_components a"
  by (cases a) (simp_all add: symmetric_n_independent_components_def)

text \<open>
  Claim C9.  For \<open>1 \<le> dim \<le> spacedim\<close> the cache constructor succeeds and owns one
  scalar view per component, and one vector, symmetric tensor and tensor view per
  window of \<open>spacedim\<close>, \<open>spacedim (spacedim + 1) / 2\<close> and \<open>spacedim\<^sup>2\<close> consecutive
  components: \<open>n - K + 1\<close> views with offsets \<open>0, 1, \<dots>\<close> when the element has
  \<open>n \<ge> K\<close> components, none when it has fewer.
\<close>

theorem cache_view_counts:
  assumes dims: "1 \<le> cdim" "cdim \<le> spacedim" and n: "n_components fe < 4294967296"
  shows "\<exists>cache. Cache_ctor cdim spacedim fe = Inr cache \<and>
           map component (scalars cache) = [0..<n_components fe] \<and>
           map first_component (vectors cache)
             = [0..<(if spacedim \<le> n_components fe then n_components fe - spacedim + 1 else 0)] \<and>
           map first_component (symmetric_second_order_tensors cache)
             = [0..<(if symmetric_n_independent_components spacedim \<le> n_components fe
                     then n_components fe - symmetric_n_independent_components spacedim + 1
                     else 0)] \<and>
           map first_component (second_order_tensors cache)
             = [0..<(if spacedim * spacedim \<le> n_components fe
                     then n_components fe - spacedim * spacedim + 1 else 0)]"
proof -
  let ?n = "n_components fe"
  let ?K1 = "tensor_n_independent_components 1 spacedim"
  let ?Ks = "symmetric_n_independent_components spacedim"
  let ?K2 = "tensor_n_independent_components 2 spacedim"
  have sp: "0 < spacedim" using dims by simp
  have K1: "?K1 = spacedim" by (simp add: tensor_n_independent_components_def)
  have K2: "?K2 = spacedim * spacedim"
    by (simp add: tensor_n_independent_components_def power2_eq_square)
  have Ks: "0 < ?Ks" using sp by (rule symmetric_n_independent_components_pos)
  have K2pos: "0 < ?K2" using sp by (simp add: K2)
  have "\<exists>v. Scalar_ctor fe c = Inr v \<and> component v = c" if "c \<in> set [0..<?n]" for c
    using that by (simp add: Scalar_ctor_def Let_def)
  from emplace_views_all[of "[0..<?n]" "Scalar_ctor fe" component, OF this]
  obtain ss where ss: "emplace_views (Scalar_ctor fe) [0..<?n] = Inr ss"
    "map component ss = [0..<?n]" by blast
  have "\<exists>v. Vector_ctor spacedim fe c = Inr v \<and> first_component v = c"
    if "c \<in> set [0..<n_views ?n ?K1]" for c
  proof -
    from that have "c < n_views ?n spacedim" unfolding K1 by simp
    from window_fits[OF this sp n le_refl] ctor_succeeds[OF sp, of c ?n]
    show ?thesis by (simp add: Vector_ctor_def)
  qed
  from emplace_views_all[of "[0..<n_views ?n ?K1]" "Vector_ctor spacedim fe" first_component,
                         OF this]
  obtain vs where vs: "emplace_views (Vector_ctor spacedim fe) [0..<n_views ?n ?K1] = Inr vs"
    "map first_component vs = [0..<n_views ?n ?K1]" by blast
  have "\<exists>v. SymmetricTensor_ctor cdim fe c = Inr v \<and> first_component v = c"
    if "c \<in> set [0..<n_views ?n ?Ks]" for c
  proof -
    from that have c: "c < n_views ?n ?Ks" by simp
    have pos: "0 < symmetric_n_independent_components cdim"
      using dims(1) by (intro symmetric_n_independent_components_pos) simp
    from window_fits[OF c Ks n symmetric_n_independent_components_mono[OF dims(2)]]
         ctor_succeeds[OF pos, of c ?n]
    show ?thesis
      by (simp add: SymmetricTensor_ctor_def symmetric_n_independent_components_def)
  qed
  from emplace_views_all[of "[0..<n_views ?n ?Ks]" "SymmetricTensor_ctor cdim fe"
                            first_component, OF this]
  obtain sts where sts:
    "emplace_views (SymmetricTensor_ctor cdim fe) [0..<n_views ?n ?Ks] = Inr sts"
    "map first_component sts = [0..<n_views ?n ?Ks]" by blast
  have "\<exists>v. Tensor_ctor cdim fe c = Inr v \<and> first_component v = c"
    if "c \<in> set [0..<n_views ?n ?K2]" for c
  proof -
    from that have c: "c < n_views ?n ?K2" by simp
    have pos: "0 < cdim * cdim" using dims(1) by simp
    have le: "cdim * cdim \<le> ?K2" unfolding K2 using dims(2) by (intro mult_le_mono)
    from window_fits[OF c K2pos n le] ctor_succeeds[OF pos, of c ?n]
    show ?thesis by (simp add: Tensor_ctor_def)
  qed
  from emplace_views_all[of "[0..<n_views ?n ?K2]" "Tensor_ctor cdim fe" first_component,
                         OF this]
  obtain ts where ts: "emplace_views (Tensor_ctor cdim fe) [0..<n_views ?n ?K2] = Inr ts"
    "map first_component ts = [0..<n_views ?n ?K2]" by blast
  have c: "Cache_ctor cdim spacedim fe
           = Inr \<lparr>scalars = ss, vectors = vs, symmetric_second_order_tensors = sts,
                  second_order_tensors = ts\<rparr>"
    unfolding Cache_ctor_def Let_def ss(1) vs(1) sts(1) ts(1) by simp
  have v1: "n_views ?n ?K1 = (if spacedim \<le> ?n then ?n - spacedim + 1 else 0)"
    using n_views_eq[OF sp n] unfolding K1 by simp
  have v2: "n_views ?n ?K2 = (if spacedim * spacedim \<le> ?n then ?n - spacedim * spacedim + 1 
                               else 0)"
    using n_views_eq[OF K2pos n] unfolding K2 by simp
  show ?thesis
    unfolding c using ss(2) vs(2) sts(2) ts(2) n_views_eq[OF Ks n] v1 v2 by simp
qed

lemma classify_keeps_flags:
  "is_nonzero_shape_function_component (classify_shape_function K s)
     = is_nonzero_shape_function_component s"
  "row_index (classify_shape_function K s) = row_index s"
  by (simp_all add: classify_shape_function_def Let_def split: option.splits)

lemma shape_function_data_flags:
  assumes "i < n_dofs_per_cell fe"
  shows "is_nonzero_shape_function_component (make_shape_function_data fe first K ! i) d
         = (d < K \<and> fst (nonzero_component_entry fe (make_shape_function_to_row_table fe)
                            (u32 (first + d)) i))"
    and "row_index (make_shape_function_data fe first K ! i) d
         = (if d < K then snd (nonzero_component_entry fe (make_shape_function_to_row_table fe)
                            (u32 (first + d)) i) else 0)"
  unfolding shape_function_data_nth[OF assms] classify_keeps_flags
  using fill_flags[of fe "make_shape_function_to_row_table fe" first i K _ d]
  by simp_all

theorem row_table_complete_witness:
  "length (make_shape_function_to_row_table
      \<lparr>n_dofs_per_cell = 2, n_components = 2, is_primitive = False,
       is_primitive_shape = (\<lambda>i. i = 0), system_to_component_index = (\<lambda>i. 0),
       get_nonzero_components = (\<lambda>i c. i = 1 \<or> c = 0),
       n_nonzero_components = (\<lambda>i. if i = 0 then 1 else 2)\<rparr>) = 4 \<and>
   filter (\<lambda>r. r \<noteq> invalid_unsigned_int)
     (make_shape_function_to_row_table
      \<lparr>n_dofs_per_cell = 2, n_components = 2, is_primitive = False,
       is_primitive_shape = (\<lambda>i. i = 0), system_to_component_index = (\<lambda>i. 0),
       get_nonzero_components = (\<lambda>i c. i = 1 \<or> c = 0),
       n_nonzero_components = (\<lambda>i. if i = 0 then 1 else 2)\<rparr>) = [0, 1, 2]"
proof -
  let ?fe = "\<lparr>n_dofs_per_cell = 2, n_components = 2, is_primitive = False,
       is_primitive_shape = (\<lambda>i. i = 0), system_to_component_index = (\<lambda>i. 0),
       get_nonzero_components = (\<lambda>i c. i = 1 \<or> c = 0),
       n_nonzero_components = (\<lambda>i. if i = 0 then 1 else 2)\<rparr>"
  have cc: "consistent_counts ?fe"
    by (auto simp: consistent_counts_def nnz_def less_Suc_eq numeral_2_eq_2)
  have s: "(\<Sum>i<(2::nat). if i = 0 then 1 else (2::nat)) = 3"
    by (simp add: numeral_2_eq_2)
  have u: "[0..<3] = [0, 1, 2]" by (simp add: upt_rec)
  from row_table_complete[OF cc] show ?thesis by (simp add: s u)
qed


theorem cache_view_counts_witness:
  "\<exists>cache. Cache_ctor 2 2
      \<lparr>n_dofs_per_cell = 1, n_components = 4, is_primitive = True,
       is_primitive_shape = (\<lambda>i. True), system_to_component_index = (\<lambda>i. 0),
       get_nonzero_components = (\<lambda>i c. c = 0),
       n_nonzero_components = (\<lambda>i. 1)\<rparr> = Inr cache \<and>
     length (scalars cache) = 4 \<and> length (vectors cache) = 3 \<and>
     length (symmetric_second_order_tensors cache) = 2 \<and>
     length (second_order_tensors cache) = 1"
proof -
  let ?fe = "\<lparr>n_dofs_per_cell = 1, n_components = 4, is_primitive = True,
       is_primitive_shape = (\<lambda>i. True), system_to_component_index = (\<lambda>i. 0),
       get_nonzero_components = (\<lambda>i c. c = 0),
       n_nonzero_components = (\<lambda>i. 1)\<rparr>"
  have h: "(1::nat) \<le> 2" "(2::nat) \<le> 2" "n_components ?fe < 4294967296" by simp_all
  from cache_view_counts[OF h] obtain cache where c:
    "Cache_ctor 2 2 ?fe = Inr cache"
    "map component (scalars cache) = [0..<n_components ?fe]"
    "map first_component (vectors cache)
       = [0..<(if 2 \<le> n_components ?fe then n_components ?fe - 2 + 1 else 0)]"
    "map first_component (symmetric_second_order_tensors cache)
       = [0..<(if symmetric_n_independent_components 2 \<le> n_components ?fe
               then n_components ?fe - symmetric_n_independent_components 2 + 1 else 0)]"
    "map first_component (second_order_tensors cache)
       = [0..<(if 2 * 2 \<le> n_components ?fe then n_components ?fe - 2 * 2 + 1 else 0)]"
    by blast
  have "length (scalars cache) = length (map component (scalars cache))" by simp
  then have "length (scalars cache) = 4" unfolding c(2) by simp
  moreover have "length (vectors cache) = length (map first_component (vectors cache))"
    by simp
  then have "length (vectors cache) = 3" unfolding c(3) by simp
  moreover have "length (symmetric_second_order_tensors cache)
      = length (map first_component (symmetric_second_order_tensors cache))" by simp
  then have "length (symmetric_second_order_tensors cache) = 2"
    unfolding c(4) by (simp add: symmetric_n_independent_components_def)
  moreover have "length (second_order_tensors cache)
      = length (map first_component (second_order_tensors cache))" by simp
  then have "length (second_order_tensors cache) = 1" unfolding c(5) by simp
  ultimately show ?thesis using c(1) by blast
qed

lemma classifier_consistent_many:
  "classifier_consistent K s \<Longrightarrow>
   1 < length (filter (is_nonzero_shape_function_component s) [0..<K]) \<Longrightarrow>
   single_nonzero_component s = - 1"
  unfolding classifier_consistent_def by blast

lemma classifier_consistent_one:
  "classifier_consistent K s \<Longrightarrow> d < K \<Longrightarrow> is_nonzero_shape_function_component s d \<Longrightarrow>
   (\<And>d'. d' < K \<Longrightarrow> is_nonzero_shape_function_component s d' \<Longrightarrow> d' = d) \<Longrightarrow>
   single_nonzero_component s = int (row_index s d) \<and> single_nonzero_component_index s = d"
  unfolding classifier_consistent_def by blast

lemma classifier_consistent_zero:
  "classifier_consistent K s \<Longrightarrow>
   (\<And>d. d < K \<Longrightarrow> \<not> is_nonzero_shape_function_component s d) \<Longrightarrow>
   single_nonzero_component s = - 2"
  unfolding classifier_consistent_def by blast

theorem classifier_consistency_witness:
  "Vector_ctor 2
      \<lparr>n_dofs_per_cell = 2, n_components = 2, is_primitive = False,
       is_primitive_shape = (\<lambda>i. i = 0), system_to_component_index = (\<lambda>i. 0),
       get_nonzero_components = (\<lambda>i c. i = 1 \<or> c = 0),
       n_nonzero_components = (\<lambda>i. if i = 0 then 1 else 2)\<rparr> 0
     = Inr \<lparr>first_component = 0,
            shape_function_data = make_shape_function_data
      \<lparr>n_dofs_per_cell = 2, n_components = 2, is_primitive = False,
       is_primitive_shape = (\<lambda>i. i = 0), system_to_component_index = (\<lambda>i. 0),
       get_nonzero_components = (\<lambda>i c. i = 1 \<or> c = 0),
       n_nonzero_components = (\<lambda>i. if i = 0 then 1 else 2)\<rparr> 0 2\<rparr> \<and>
   single_nonzero_component (make_shape_function_data
      \<lparr>n_dofs_per_cell = 2, n_components = 2, is_primitive = False,
       is_primitive_shape = (\<lambda>i. i = 0), system_to_component_index = (\<lambda>i. 0),
       get_nonzero_components = (\<lambda>i c. i = 1 \<or> c = 0),
       n_nonzero_components = (\<lambda>i. if i = 0 then 1 else 2)\<rparr> 0 2 ! 1) = - 1 \<and>
   single_nonzero_component (make_shape_function_data
      \<lparr>n_dofs_per_cell = 2, n_components = 2, is_primitive = False,
       is_primitive_shape = (\<lambda>i. i = 0), system_to_component_index = (\<lambda>i. 0),
       get_nonzero_components = (\<lambda>i c. i = 1 \<or> c = 0),
       n_nonzero_components = (\<lambda>i. if i = 0 then 1 else 2)\<rparr> 0 2 ! 0) = 0 \<and>
   single_nonzero_component_index (make_shape_function_data
      \<lparr>n_dofs_per_cell = 2, n_components = 2, is_primitive = False,
       is_primitive_shape = (\<lambda>i. i = 0), system_to_component_index = (\<lambda>i. 0),
       get_nonzero_components = (\<lambda>i c. i = 1 \<or> c = 0),
       n_nonzero_components = (\<lambda>i. if i = 0 then 1 else 2)\<rparr> 0 2 ! 0) = 0"
proof -
  let ?fe = "\<lparr>n_dofs_per_cell = 2, n_components = 2, is_primitive = False,
       is_primitive_shape = (\<lambda>i. i = 0), system_to_component_index = (\<lambda>i. 0),
       get_nonzero_components = (\<lambda>i c. i = 1 \<or> c = 0),
       n_nonzero_components = (\<lambda>i. if i = 0 then 1 else 2)\<rparr>"
  let ?data = "make_shape_function_data ?fe 0 2"
  have cc: "consistent_counts ?fe"
    by (auto simp: consistent_counts_def nnz_def less_Suc_eq numeral_2_eq_2)
  have cf: "consistent_fe ?fe" using cc by (simp add: consistent_fe_def)
  have i0: "0 < n_dofs_per_cell ?fe" and i1: "1 < n_dofs_per_cell ?fe" by simp_all
  have fit: "0 < (2::nat) \<and> 0 + 2 \<le> n_components ?fe" by simp
  have v: "Vector_ctor 2 ?fe 0 = Inr \<lparr>first_component = 0, shape_function_data = ?data\<rparr>"
    by (simp add: Vector_ctor_def u32_def)
  have f1: "is_nonzero_shape_function_component (?data ! 1) d = (d < 2)" for d
    using shape_function_data_flags(1)[OF i1, of 0 2 d]
    by (simp add: nonzero_component_entry_def Let_def)
  have f0: "is_nonzero_shape_function_component (?data ! 0) d = (d = 0)" for d
    using shape_function_data_flags(1)[OF i0, of 0 2 d]
    by (auto simp: nonzero_component_entry_def Let_def u32_def)
  have r0: "row_index (?data ! 0) 0 = 0"
    using shape_function_data_flags(2)[OF i0, of 0 2 0] row_table_entries(2)[OF cc i0, of 0]
    by (simp add: nonzero_component_entry_def Let_def u32_def first_row_def nnz_def)
  from classifier_consistency[OF cf i1, of 2 0] fit v
  have c1: "classifier_consistent 2 (?data ! 1)" by simp
  from classifier_consistency[OF cf i0, of 2 0] fit v
  have c0: "classifier_consistent 2 (?data ! 0)" by simp
  have F1: "is_nonzero_shape_function_component (?data ! 1) = (\<lambda>d. d < 2)"
    by (rule ext) (rule f1)
  have "filter (is_nonzero_shape_function_component (?data ! 1)) [0..<2] = [0, 1]"
    unfolding F1 by (simp add: upt_rec)
  then have "1 < length (filter (is_nonzero_shape_function_component (?data ! 1)) [0..<2])"
    by simp
  with c1 have s1: "single_nonzero_component (?data ! 1) = - 1"
    by (rule classifier_consistent_many)
  have a: "is_nonzero_shape_function_component (?data ! 0) 0" by (simp only: f0)
  have b: "d' = 0" if "is_nonzero_shape_function_component (?data ! 0) d'" for d'
    using that by (simp only: f0)
  have "single_nonzero_component (?data ! 0) = int (row_index (?data ! 0) 0) \<and>
        single_nonzero_component_index (?data ! 0) = 0"
    by (rule classifier_consistent_one[OF c0 _ a b]) simp_all
  then have s0: "single_nonzero_component (?data ! 0) = 0"
    and x0: "single_nonzero_component_index (?data ! 0) = 0"
    by (simp_all only: r0 of_nat_0)
  show ?thesis
  proof (intro conjI)
    show "Vector_ctor 2 ?fe 0 = Inr \<lparr>first_component = 0, shape_function_data = ?data\<rparr>"
      by (rule v)
    show "single_nonzero_component (?data ! 1) = - 1" by (rule s1)
    show "single_nonzero_component (?data ! 0) = 0" by (rule s0)
    show "single_nonzero_component_index (?data ! 0) = 0" by (rule x0)
  qed
qed












text \<open>
  Claim C8.  In one space dimension the curl kernel fails with the assertion's
  exception for every coefficient array, shape data and output array; no curl is
  returned.
\<close>

theorem curl_1d_fails:
  "do_function_curls 1 dof_values shape_gradients sfd curls = Inl ExcMessage"
  by (simp add: do_function_curls_def)











end
